theory Spec2Isabelle
  imports Main "HOL-Library.AList"
begin

section \<open>Records, values and the dictionary operations the processor uses\<close>

text \<open>
  The processor of \<^verbatim>\<open>datasets/backends/base.py\<close> works on loosely structured records:
  Python dictionaries whose values are scalars, lists or nested dictionaries. A dictionary
  is an association list in insertion order; \<open>map_of\<close> reads it the way Python's
  subscript does.
\<close>

datatype val =
    VNone
  | VBool bool
  | VInt int
  | VStr string
  | VList "val list"
  | VDict "(string \<times> val) list"

type_synonym dictset = "(string \<times> val) list"

text \<open>Python's truth value of an object (\<^verbatim>\<open>if x:\<close>).\<close>

fun truthy :: "val \<Rightarrow> bool" where
  "truthy VNone = False"
| "truthy (VBool b) = b"
| "truthy (VInt n) = (n \<noteq> 0)"
| "truthy (VStr s) = (s \<noteq> [])"
| "truthy (VList xs) = (xs \<noteq> [])"
| "truthy (VDict kvs) = (kvs \<noteq> [])"

text \<open>\<^verbatim>\<open>k in d\<close>\<close>

definition has_key :: "dictset \<Rightarrow> string \<Rightarrow> bool" where
  "has_key d k = (map_of d k \<noteq> None)"

text \<open>\<^verbatim>\<open>d.get(k, default)\<close>\<close>

definition get_or :: "dictset \<Rightarrow> string \<Rightarrow> val \<Rightarrow> val" where
  "get_or d k dflt = (case map_of d k of None \<Rightarrow> dflt | Some v \<Rightarrow> v)"

text \<open>\<^verbatim>\<open>d[k] = v\<close>: an existing key keeps its place, a new one goes last.\<close>

definition setitem :: "dictset \<Rightarrow> string \<Rightarrow> val \<Rightarrow> dictset" where
  "setitem d k v = AList.update k v d"

text \<open>The dictionary that \<^verbatim>\<open>d.pop(k, default)\<close> leaves behind.\<close>

definition popped :: "dictset \<Rightarrow> string \<Rightarrow> dictset" where
  "popped d k = AList.delete k d"

text \<open>\<^verbatim>\<open>d.update(other)\<close>\<close>

definition dict_update :: "dictset \<Rightarrow> dictset \<Rightarrow> dictset" where
  "dict_update d other = fold (\<lambda>kv acc. AList.update (fst kv) (snd kv) acc) other d"

text \<open>\<^verbatim>\<open>s.partition(sep)\<close> for a non-empty separator.\<close>

fun partition_str :: "string \<Rightarrow> string \<Rightarrow> string \<times> string \<times> string" where
  "partition_str sep [] = ([], [], [])"
| "partition_str sep (c # cs) =
     (if take (length sep) (c # cs) = sep then ([], sep, drop (length sep) (c # cs))
      else (case partition_str sep cs of (a, s, b) \<Rightarrow> (c # a, s, b)))"

definition nl :: string where
  "nl = [CHR 0x0A]"

text \<open>\<^verbatim>\<open>'\n'.join(msg)\<close>\<close>

fun join_nl :: "string list \<Rightarrow> string" where
  "join_nl [] = []"
| "join_nl [x] = x"
| "join_nl (x # y # ys) = x @ nl @ join_nl (y # ys)"

text \<open>\<^verbatim>\<open>'.' in kk\<close>\<close>

definition dotted :: "string \<Rightarrow> bool" where
  "dotted k = (CHR ''.'' \<in> set k)"

definition strs :: "string list \<Rightarrow> val" where
  "strs ks = VList (map VStr ks)"

section \<open>Errors, log lines and backend calls\<close>

text \<open>
  Every \<^verbatim>\<open>raise\<close> of the processor is a value. \<open>DValueError\<close> and \<open>DKeyError\<close> carry the
  message of the source; the message of \<^verbatim>\<open>validate_ops\<close> formats a Python set, whose
  order of iteration is not fixed, so that error carries the set itself. \<open>TypeError\<close> and
  \<open>AttributeError\<close> are the interpreter's own, raised where the source applies a list or
  dictionary operation to a value of another shape. \<open>BackendError\<close> is whatever the
  storage adapter raises, \<open>ConfigurationError\<close> what a typed getter of the configuration
  raises for the option it names.
\<close>

datatype error =
    DValueError string
  | DKeyError string
  | DKeyError_invalid_operations "string set"
  | TypeError
  | AttributeError
  | BackendError string
  | ConfigurationError string

text \<open>What \<^verbatim>\<open>get_collection\<close> hands back: the matching objects, or their number when the
  query carries \<^verbatim>\<open>_count\<close>.\<close>

datatype 'o coll = Objects "'o list" | Count int

fun coll_truthy :: "'o coll \<Rightarrow> bool" where
  "coll_truthy (Objects os) = (os \<noteq> [])"
| "coll_truthy (Count n) = (n \<noteq> 0)"

text \<open>One constructor for each call of \<^verbatim>\<open>logger\<close> in the processor, named by its level.\<close>

datatype 'o event =
    Warning_nested_append string
  | Warning_nested_key string
  | Debug_skip_creation "'o coll" dictset
  | Debug_created 'o
  | Warning_multiple_updates nat string
  | Info_diff string val val
  | Info_diff_identical
  | Warning_skip_source_consolidation val
  | Debug_updated 'o string
  | Warning_dry_run
  | Debug_deleted 'o string
  | Debug_deleted_count nat string
  | Warning_not_found string
  | Debug_nothing_to_save
  | Debug_saved 'o string

text \<open>The primitives of the storage adapter, recorded in the order the processor invokes
  them.\<close>

datatype 'o call =
    Call_get_collection dictset
  | Call_klass
  | Call_save 'o dictset
  | Call_delete 'o

record ('b, 'o) state =
  backend :: 'b
  calls :: "'o call list"
  logged :: "'o event list"
  oid_count :: nat

type_synonym ('a, 'b, 'o) res = "(error + 'a) \<times> ('b, 'o) state"

definition log_event :: "'o event \<Rightarrow> ('b, 'o) state \<Rightarrow> ('b, 'o) state" where
  "log_event e s = s\<lparr>logged := logged s @ [e]\<rparr>"

definition log_events :: "'o event list \<Rightarrow> ('b, 'o) state \<Rightarrow> ('b, 'o) state" where
  "log_events es s = s\<lparr>logged := logged s @ es\<rparr>"

definition record_call :: "'o call \<Rightarrow> ('b, 'o) state \<Rightarrow> ('b, 'o) state" where
  "record_call c s = s\<lparr>calls := calls s @ [c]\<rparr>"

section \<open>Configuration and collaborators\<close>

text \<open>
  The typed options \<^verbatim>\<open>self.params\<close> holds after \<^verbatim>\<open>__init__\<close>, with \<^verbatim>\<open>self.job_log\<close>. An
  option declared with \<^verbatim>\<open>allow_missing\<close> is \<open>None\<close> when the configuration does not have
  it, which is what \<^verbatim>\<open>'fields' in self.params\<close> tests (the option \<^verbatim>\<open>fields\<close> is
  \<open>fieldset\<close> here).
\<close>

record base =
  keep_ids :: bool
  overwrite :: bool
  flatten :: bool
  append_to :: "string list"
  append_to_set :: "string list"
  normalize :: "string list"
  fieldset :: "string list option"
  pop_empty :: "string list"
  keep_source_logs :: bool
  dry_run :: bool
  log_size :: nat
  log_fields :: "string list"
  log_pretty :: bool
  show_diff :: "string list option"
  op :: string
  op_params :: string
  skip_by :: "string list option"
  transformer :: "string option"
  source_consolidation_mode :: "string option"
  query :: "dictset option"
  extra :: "dictset option"
  extra_options :: "dictset option"
  job_log :: dictset

text \<open>
  The collaborators the processor calls and this repository does not define: the
  functions of slovar, prf and smurfs it imports, Python's formatting, and the storage
  adapter (\<^verbatim>\<open>self.klass\<close>, the objects it returns, and \<^verbatim>\<open>_save\<close>, which \<^verbatim>\<open>Base\<close> leaves to
  its subclasses). They are parameters: a theorem holds for whatever they compute. The
  two primitives that write to the store may fail; the others are taken to return, so an
  exception of their own is not a case of the processor.
\<close>

record ('b, 'o) env =
  typecast :: "dictset \<Rightarrow> dictset"
  extract_fields :: "dictset \<Rightarrow> string list \<Rightarrow> dictset"
  flat :: "dictset \<Rightarrow> dictset"
  unflat :: "dictset \<Rightarrow> dictset"
  split_strip :: "string \<Rightarrow> string list"
  get_morpher :: "string \<Rightarrow> dictset \<Rightarrow> dictset list"
  smurfs_normalize :: "dictset \<Rightarrow> string list \<Rightarrow> val"
  consolidate_sources :: "val \<Rightarrow> val \<Rightarrow> string \<Rightarrow> val"
  str_of :: "val \<Rightarrow> string"
  pformat :: "val \<Rightarrow> string"
  object_id :: "nat \<Rightarrow> string"
  today :: val
  get_collection :: "dictset \<Rightarrow> 'b \<Rightarrow> 'o coll"
  klass :: "'b \<Rightarrow> 'o"
  klass_name :: string
  to_dict :: "'o \<Rightarrow> dictset"
  persist :: "'o \<Rightarrow> dictset \<Rightarrow> 'b \<Rightarrow> error + 'b"
  obj_delete :: "'o \<Rightarrow> 'b \<Rightarrow> error + 'b"
  cast_as :: "string \<Rightarrow> val \<Rightarrow> error + val"
  get_dataset :: "dictset \<Rightarrow> error + unit"

section \<open>Merging two records\<close>

text \<open>
  Modelled from the spec: \<^verbatim>\<open>update_with\<close> of slovar's dictionary class, which the
  processor calls for every merge and which is not part of the repository. The spec's
  merge policies (section 4.4, step 3): a field the target lacks is taken from the incoming
  data; for a field of \<^verbatim>\<open>append_to\<close> the incoming sequence is concatenated onto the
  target's; for a field of \<^verbatim>\<open>append_to_set\<close> likewise, without duplicates; otherwise the
  incoming value replaces the target's when \<^verbatim>\<open>overwrite\<close> is true and the target's value
  stays when it is false. With \<^verbatim>\<open>flatten\<close> both sides are addressed by their flattened
  dotted paths. A value that is not a list is appended as a sequence of one element.
\<close>

fun as_seq :: "val \<Rightarrow> val list" where
  "as_seq (VList xs) = xs"
| "as_seq v = [v]"

definition merge_field :: "bool \<Rightarrow> string list \<Rightarrow> string list \<Rightarrow> string \<times> val \<Rightarrow> dictset \<Rightarrow> dictset" where
  "merge_field ow at ats kv acc =
     (case map_of acc (fst kv) of
        None \<Rightarrow> AList.update (fst kv) (snd kv) acc
      | Some old \<Rightarrow>
          if fst kv \<in> set at then AList.update (fst kv) (VList (as_seq old @ as_seq (snd kv))) acc
          else if fst kv \<in> set ats then
            AList.update (fst kv) (VList (remdups (as_seq old @ as_seq (snd kv)))) acc
          else if ow then AList.update (fst kv) (snd kv) acc
          else acc)"

definition update_with ::
  "('b, 'o) env \<Rightarrow> dictset \<Rightarrow> dictset \<Rightarrow> bool \<Rightarrow> string list \<Rightarrow> string list \<Rightarrow> bool \<Rightarrow> dictset" where
  "update_with env self d ow at ats fl =
     (if fl then unflat env (fold (merge_field ow at ats) (flat env d) (flat env self))
      else fold (merge_field ow at ats) d self)"

text \<open>\<^verbatim>\<open>self.update_with(d)\<close> with slovar's defaults: overwrite, nothing appended, not
  flattened.\<close>

definition update_with_defaults :: "('b, 'o) env \<Rightarrow> dictset \<Rightarrow> dictset \<Rightarrow> dictset" where
  "update_with_defaults env self d = update_with env self d True [] [] False"

section \<open>The processor\<close>

subsection \<open>Formatting a record for the log\<close>

text \<open>
  \<^verbatim>\<open>log_data_format(query=None, data=None)\<close>. The template \<^verbatim>\<open>'DATA dict: %.Ns'\<close> cuts the
  printed record at \<^verbatim>\<open>log_size\<close> characters.
\<close>

definition log_data_format ::
  "base \<Rightarrow> ('b, 'o) env \<Rightarrow> val option \<Rightarrow> dictset option \<Rightarrow> string" where
  "log_data_format p env qry data =
     join_nl
       ((case qry of
           None \<Rightarrow> []
         | Some q \<Rightarrow> if truthy q then [''QUERY: `'' @ str_of env q @ ''`''] else [])
        @
        (case data of
           None \<Rightarrow> []
         | Some d \<Rightarrow>
             if d = [] then []
             else [''DATA keys: `'' @ str_of env (strs (map fst d)) @ ''`'']
                  @ (if log_fields p \<noteq> []
                     then [''LOG KEYS: `'' @ str_of env (strs (log_fields p)) @ ''`'']
                     else [])
                  @ [''DATA dict: '' @ take (log_size p)
                       (if log_pretty p
                        then pformat env (VDict (extract_fields env d (log_fields p)))
                        else str_of env (VDict (extract_fields env d (log_fields p))))]))"

subsection \<open>The lookup query\<close>

text \<open>The loop of \<^verbatim>\<open>build_query_params\<close> over the key fields, from an empty query.\<close>

definition query_of_keys :: "('b, 'o) env \<Rightarrow> dictset \<Rightarrow> string list \<Rightarrow> dictset" where
  "query_of_keys env data keys =
     fold (\<lambda>k q. dict_update q
                   (if dotted k then typecast env (flat env (extract_fields env data [k]))
                    else typecast env (extract_fields env data [k])))
          keys []"

definition build_query_params ::
  "base \<Rightarrow> ('b, 'o) env \<Rightarrow> dictset \<Rightarrow> string list \<Rightarrow> error + dictset" where
  "build_query_params p env data keys =
     (let q = query_of_keys env data keys in
      if q = [] then
        (if keys = [] then Inl (DValueError ''empty op params'')
         else Inl (DValueError (''update query is empty for:'' @ nl @
                     log_data_format p env (Some (strs keys)) (Some data))))
      else Inr (setitem q ''_limit'' (VInt (- 1))))"

subsection \<open>Metadata of an incoming record\<close>

record meta =
  meta_log :: dictset
  meta_source :: val

text \<open>
  \<^verbatim>\<open>extract_log\<close> pops \<^verbatim>\<open>log\<close> off the record it is given, so it returns the record it
  leaves behind as well. A \<^verbatim>\<open>log\<close> that is not a mapping cannot be made a dictionary.
\<close>

definition extract_log ::
  "base \<Rightarrow> ('b, 'o) env \<Rightarrow> dictset \<Rightarrow> error + (dictset \<times> dictset)" where
  "extract_log p env data =
     (case map_of data ''log'' of
        None \<Rightarrow> Inr (update_with_defaults env [] (job_log p), data)
      | Some (VDict l) \<Rightarrow> Inr (update_with_defaults env l (job_log p), popped data ''log'')
      | Some _ \<Rightarrow> Inl TypeError)"

definition extract_meta ::
  "base \<Rightarrow> ('b, 'o) env \<Rightarrow> dictset \<Rightarrow> error + (meta \<times> dictset)" where
  "extract_meta p env data =
     (case extract_log p env data of
        Inl e \<Rightarrow> Inl e
      | Inr (lg, data') \<Rightarrow>
          Inr (\<lparr>meta_log = lg, meta_source = get_or data' ''source'' (VDict [])\<rparr>, data'))"

subsection \<open>The save pipeline\<close>

text \<open>\<^verbatim>\<open>run_transformer\<close>: the first record the transformer yields, wrapped under the
  alias when there is one; the record itself when it yields none.\<close>

definition run_transformer :: "base \<Rightarrow> ('b, 'o) env \<Rightarrow> dictset \<Rightarrow> dictset" where
  "run_transformer p env data =
     (case transformer p of
        None \<Rightarrow> data
      | Some t \<Rightarrow>
          (case partition_str ''__as__'' t of
             (morpher, sep, trans_as) \<Rightarrow>
               (case get_morpher env morpher data of
                  [] \<Rightarrow> data
                | d # ds \<Rightarrow> if trans_as \<noteq> [] then [(trans_as, VDict d)] else d)))"

text \<open>\<^verbatim>\<open>data[ekey] in ['', None, []]\<close>\<close>

definition is_empty_value :: "val \<Rightarrow> bool" where
  "is_empty_value v = (v = VStr [] \<or> v = VNone \<or> v = VList [])"

definition pop_empties :: "string list \<Rightarrow> dictset \<Rightarrow> dictset" where
  "pop_empties ks d =
     fold (\<lambda>ekey acc. if has_key acc ekey \<and> is_empty_value (get_or acc ekey VNone)
                       then popped acc ekey else acc)
          ks d"

text \<open>
  \<^verbatim>\<open>pre_save\<close>. \<^verbatim>\<open>logs.insert(0, meta.log)\<close> changes the list the record holds, and needs
  a list: on any other value of \<^verbatim>\<open>logs\<close> it raises.
\<close>

definition pre_save :: "base \<Rightarrow> ('b, 'o) env \<Rightarrow> dictset \<Rightarrow> meta \<Rightarrow> error + dictset" where
  "pre_save p env data0 m =
     (let data = run_transformer p env data0 in
      case (case map_of data ''logs'' of
              None \<Rightarrow> Inr []
            | Some (VList l) \<Rightarrow> Inr l
            | Some _ \<Rightarrow> Inl AttributeError) of
        Inl e \<Rightarrow> Inl e
      | Inr old \<Rightarrow>
          let logs = VList (VDict (meta_log m) # old);
              data1 = setitem data ''logs'' logs;
              data2 = (if normalize p \<noteq> []
                       then setitem data1 ''n'' (smurfs_normalize env data1 (normalize p))
                       else data1);
              data3 = (case fieldset p of
                         None \<Rightarrow> data2
                       | Some fs \<Rightarrow> typecast env (extract_fields env data2 fs));
              data4 = setitem data3 ''logs'' logs
          in Inr (pop_empties (pop_empty p) data4))"

text \<open>What \<^verbatim>\<open>save\<close> returns: nothing when there was nothing to save, the data it would
  have saved under a dry run, and otherwise what \<^verbatim>\<open>_save\<close> returns.\<close>

datatype outcome = Returned_none | Returned_data dictset | Returned_by_backend

text \<open>\<^verbatim>\<open>save\<close>; the \<^verbatim>\<open>finally\<close> block logs also when \<^verbatim>\<open>_save\<close> raises.\<close>

definition save ::
  "base \<Rightarrow> ('b, 'o) env \<Rightarrow> 'o \<Rightarrow> dictset \<Rightarrow> meta \<Rightarrow> ('b, 'o) state \<Rightarrow> (outcome, 'b, 'o) res" where
  "save p env obj data m s =
     (if data = [] then (Inr Returned_none, log_event Debug_nothing_to_save s)
      else
        (case pre_save p env data m of
           Inl e \<Rightarrow> (Inl e, s)
         | Inr data' \<Rightarrow>
             if dry_run p then
               (Inr (Returned_data data'),
                log_event (Debug_saved obj (log_data_format p env None (Some data')))
                  (log_event Warning_dry_run s))
             else
               (case persist env obj data' (backend s) of
                  Inl e \<Rightarrow>
                    (Inl e,
                     log_event (Debug_saved obj (log_data_format p env None (Some data')))
                       (record_call (Call_save obj data') s))
                | Inr b \<Rightarrow>
                    (Inr Returned_by_backend,
                     log_event (Debug_saved obj (log_data_format p env None (Some data')))
                       ((record_call (Call_save obj data') s)\<lparr>backend := b\<rparr>)))))"

subsection \<open>Delete\<close>

definition delete ::
  "base \<Rightarrow> ('b, 'o) env \<Rightarrow> 'o \<Rightarrow> ('b, 'o) state \<Rightarrow> (dictset option, 'b, 'o) res" where
  "delete p env obj s =
     (let d = to_dict env obj in
      if dry_run p then
        (Inr (Some d),
         log_event (Debug_deleted obj (log_data_format p env None (Some d)))
           (log_event Warning_dry_run s))
      else
        (case obj_delete env obj (backend s) of
           Inl e \<Rightarrow>
             (Inl e,
              log_event (Debug_deleted obj (log_data_format p env None (Some d)))
                (record_call (Call_delete obj) s))
         | Inr b \<Rightarrow>
             (Inr None,
              log_event (Debug_deleted obj (log_data_format p env None (Some d)))
                ((record_call (Call_delete obj) s)\<lparr>backend := b\<rparr>))))"

subsection \<open>Update\<close>

text \<open>\<^verbatim>\<open>diff\<close> only logs: one line for each listed field that differs, or one line when
  none does.\<close>

definition diff :: "('b, 'o) env \<Rightarrow> dictset \<Rightarrow> dictset \<Rightarrow> string list \<Rightarrow> 'o event list" where
  "diff env d1 d2 keys =
     (let e1 = extract_fields env d1 keys;
          differing = filter (\<lambda>k. k \<noteq> ''id'' \<and> k \<noteq> ''logs'' \<and>
                                  get_or e1 k VNone \<noteq> get_or d2 k VNone) (map fst e1)
      in map (\<lambda>k. Info_diff k (get_or e1 k VNone) (get_or d2 k VNone)) differing
         @ (if differing = [] then [Info_diff_identical] else []))"

text \<open>The source of the merged record: the consolidated one when a mode is configured
  and the consolidation is not empty.\<close>

definition consolidated ::
  "base \<Rightarrow> ('b, 'o) env \<Rightarrow> dictset \<Rightarrow> meta \<Rightarrow> dictset \<Rightarrow> dictset" where
  "consolidated p env each_d m new_data =
     (case source_consolidation_mode p of
        Some mode \<Rightarrow>
          (let new_source =
                 consolidate_sources env (get_or each_d ''source'' (VDict [])) (meta_source m) mode
           in if truthy new_source then setitem new_data ''source'' new_source else new_data)
      | None \<Rightarrow> new_data)"

text \<open>The warning when no mode is configured and the incoming record has a source.\<close>

definition consolidation_warning :: "base \<Rightarrow> meta \<Rightarrow> 'o event list" where
  "consolidation_warning p m =
     (if source_consolidation_mode p = None \<and> truthy (meta_source m)
      then [Warning_skip_source_consolidation (meta_source m)] else [])"

text \<open>The merge of the incoming data onto the snapshot of one matched object, and the
  record \<^verbatim>\<open>update_objects\<close> hands to \<^verbatim>\<open>save\<close> for that object.\<close>

definition merged ::
  "base \<Rightarrow> ('b, 'o) env \<Rightarrow> dictset \<Rightarrow> dictset \<Rightarrow> dictset" where
  "merged p env each_d data =
     update_with env each_d data (overwrite p) (append_to p) (append_to_set p) (flatten p)"

definition new_data_for ::
  "base \<Rightarrow> ('b, 'o) env \<Rightarrow> meta \<Rightarrow> dictset \<Rightarrow> 'o \<Rightarrow> dictset" where
  "new_data_for p env m data each =
     consolidated p env (to_dict env each) m (merged p env (to_dict env each) data)"

text \<open>
  The body of the loop of \<^verbatim>\<open>update_objects\<close> over the matched objects; an exception ends
  the loop. Records are values here. In the source \<^verbatim>\<open>pre_save\<close> inserts the log entry into
  the list the merged record holds, and with \<^verbatim>\<open>keep_source_logs\<close> that list can be the
  incoming record's own, which the next matched object then receives with the entry
  already in it: its \<^verbatim>\<open>logs\<close> start with the entry twice. The head of \<^verbatim>\<open>logs\<close>, the
  objects saved and their number are the same either way.
\<close>

fun update_each ::
  "base \<Rightarrow> ('b, 'o) env \<Rightarrow> dictset \<Rightarrow> dictset \<Rightarrow> meta \<Rightarrow> 'o list \<Rightarrow> ('b, 'o) state \<Rightarrow> (unit, 'b, 'o) res" where
  "update_each p env q data m [] s = (Inr (), s)"
| "update_each p env q data m (each # rest) s =
     (let s1 = (case show_diff p of
                  None \<Rightarrow> s
                | Some ks \<Rightarrow> log_events (diff env data (to_dict env each) ks) s);
          s2 = log_events (consolidation_warning p m) s1
      in case save p env each (new_data_for p env m data each) m s2 of
           (Inl e, s3) \<Rightarrow> (Inl e, s3)
         | (Inr r, s3) \<Rightarrow>
             update_each p env q data m rest
               (log_event (Debug_updated each (log_data_format p env (Some (VDict q)) None)) s3))"

text \<open>\<^verbatim>\<open>update_objects\<close>; \<^verbatim>\<open>len\<close> of a number raises.\<close>

definition update_objects ::
  "base \<Rightarrow> ('b, 'o) env \<Rightarrow> dictset \<Rightarrow> 'o coll \<Rightarrow> dictset \<Rightarrow> ('b, 'o) state \<Rightarrow> (nat, 'b, 'o) res" where
  "update_objects p env q objects data s =
     (case objects of
        Count n \<Rightarrow> (Inl TypeError, s)
      | Objects objs \<Rightarrow>
          (let update_count = length objs;
               s1 = (if update_count > 1
                     then log_event (Warning_multiple_updates update_count
                                       (log_data_format p env (Some (VDict q)) None)) s
                     else s);
               data1 = (if \<not> keep_source_logs p then popped data ''logs'' else data)
           in case extract_meta p env data1 of
                Inl e \<Rightarrow> (Inl e, s1)
              | Inr (m, data2) \<Rightarrow>
                  (case update_each p env q data2 m objs s1 of
                     (Inl e, s2) \<Rightarrow> (Inl e, s2)
                   | (Inr u, s2) \<Rightarrow> (Inr update_count, s2))))"

subsection \<open>Create\<close>

text \<open>Lines 165 and 166 of \<^verbatim>\<open>create\<close>: an incoming \<^verbatim>\<open>id\<close> becomes \<^verbatim>\<open>original_id\<close>.\<close>

definition rename_id :: "base \<Rightarrow> dictset \<Rightarrow> dictset" where
  "rename_id p data =
     (if has_key data ''id'' \<and> \<not> keep_ids p \<and> \<not> has_key data ''original_id''
      then setitem (popped data ''id'') ''original_id'' (get_or data ''id'' VNone)
      else data)"

text \<open>\<^verbatim>\<open>create\<close> from line 165 on, once the record is not skipped. The arguments of
  \<^verbatim>\<open>self.save(obj, data, self.extract_meta(data))\<close> are evaluated first, so \<^verbatim>\<open>save\<close> gets
  the record without its \<^verbatim>\<open>log\<close>.\<close>

definition create_object ::
  "base \<Rightarrow> ('b, 'o) env \<Rightarrow> dictset \<Rightarrow> ('b, 'o) state \<Rightarrow> (unit, 'b, 'o) res" where
  "create_object p env data s =
     (let data1 = rename_id p data;
          obj = klass env (backend s);
          s1 = record_call Call_klass s
      in case extract_meta p env data1 of
           Inl e \<Rightarrow> (Inl e, s1)
         | Inr (m, data2) \<Rightarrow>
             (case save p env obj data2 m s1 of
                (Inl e, s2) \<Rightarrow> (Inl e, s2)
              | (Inr r, s2) \<Rightarrow> (Inr (), log_event (Debug_created obj) s2)))"

definition create ::
  "base \<Rightarrow> ('b, 'o) env \<Rightarrow> dictset \<Rightarrow> ('b, 'o) state \<Rightarrow> (unit, 'b, 'o) res" where
  "create p env data s =
     (case skip_by p of
        None \<Rightarrow> create_object p env data s
      | Some ks \<Rightarrow>
          (case build_query_params p env data ks of
             Inl e \<Rightarrow> (Inl e, s)
           | Inr q \<Rightarrow>
               (let q1 = setitem q ''_count'' (VInt 1);
                    exists = get_collection env q1 (backend s);
                    s1 = record_call (Call_get_collection q1) s
                in if coll_truthy exists
                   then (Inr (), log_event (Debug_skip_creation exists q1) s1)
                   else create_object p env data s1)))"

subsection \<open>Dispatch\<close>

definition objects_to_update ::
  "base \<Rightarrow> ('b, 'o) env \<Rightarrow> string list \<Rightarrow> dictset \<Rightarrow> ('b, 'o) state \<Rightarrow> (dictset \<times> 'o coll, 'b, 'o) res" where
  "objects_to_update p env keys data s =
     (let s1 = log_events (map Warning_nested_key
                             (filter (\<lambda>kk. dotted kk \<and> \<not> flatten p) keys)) s
      in case build_query_params p env data keys of
           Inl e \<Rightarrow> (Inl e, s1)
         | Inr q \<Rightarrow>
             (let q1 = (case query p of
                          None \<Rightarrow> q
                        | Some static \<Rightarrow> update_with_defaults env q (typecast env static))
              in (Inr (q1, get_collection env q1 (backend s1)),
                  record_call (Call_get_collection q1) s1)))"

definition log_not_found ::
  "base \<Rightarrow> ('b, 'o) env \<Rightarrow> dictset \<Rightarrow> dictset \<Rightarrow> ('b, 'o) state \<Rightarrow> ('b, 'o) state" where
  "log_not_found p env q data s =
     log_event (Warning_not_found (''NOT FOUND in <'' @ klass_name env @ ''> with:'' @ nl @
                  log_data_format p env (Some (VDict q)) (Some data))) s"

text \<open>The loop \<^verbatim>\<open>for obj in objects: self.delete(obj)\<close>.\<close>

fun delete_each ::
  "base \<Rightarrow> ('b, 'o) env \<Rightarrow> 'o list \<Rightarrow> ('b, 'o) state \<Rightarrow> (unit, 'b, 'o) res" where
  "delete_each p env [] s = (Inr (), s)"
| "delete_each p env (obj # rest) s =
     (case delete p env obj s of
        (Inl e, s1) \<Rightarrow> (Inl e, s1)
      | (Inr r, s1) \<Rightarrow> delete_each p env rest s1)"

text \<open>
  \<^verbatim>\<open>add_extra\<close>. The sentinel \<^verbatim>\<open>__gid__\<close> is replaced by a fresh object id (the state
  counts the ids handed out) and \<^verbatim>\<open>__today__\<close> by the clock's value.
\<close>

fun resolve_sentinels :: "('b, 'o) env \<Rightarrow> dictset \<Rightarrow> nat \<Rightarrow> dictset \<times> nat" where
  "resolve_sentinels env [] n = ([], n)"
| "resolve_sentinels env (kv # kvs) n =
     (if snd kv = VStr ''__gid__'' then
        (case resolve_sentinels env kvs (Suc n) of
           (r, n') \<Rightarrow> ((fst kv, VStr (object_id env n)) # r, n'))
      else if snd kv = VStr ''__today__'' then
        (case resolve_sentinels env kvs n of (r, n') \<Rightarrow> ((fst kv, today env) # r, n'))
      else
        (case resolve_sentinels env kvs n of (r, n') \<Rightarrow> (kv # r, n')))"

text \<open>The field names a configuration value stands for: a comma-separated string or a
  list of strings.\<close>

fun names_of :: "('b, 'o) env \<Rightarrow> val \<Rightarrow> string list" where
  "names_of env (VStr s) = split_strip env s"
| "names_of env (VList xs) = concat (map (\<lambda>x. case x of VStr s \<Rightarrow> [s] | _ \<Rightarrow> []) xs)"
| "names_of env v = []"

text \<open>\<^verbatim>\<open>self.update_with(d, **opts)\<close>: the options not given keep slovar's defaults.\<close>

definition update_with_options ::
  "('b, 'o) env \<Rightarrow> dictset \<Rightarrow> dictset \<Rightarrow> dictset \<Rightarrow> dictset" where
  "update_with_options env self d opts =
     update_with env self d
       (truthy (get_or opts ''overwrite'' (VBool True)))
       (names_of env (get_or opts ''append_to'' VNone))
       (names_of env (get_or opts ''append_to_set'' VNone))
       (truthy (get_or opts ''flatten'' (VBool False)))"

definition add_extra ::
  "base \<Rightarrow> ('b, 'o) env \<Rightarrow> dictset \<Rightarrow> ('b, 'o) state \<Rightarrow> dictset \<times> ('b, 'o) state" where
  "add_extra p env data s =
     (case extra p of
        None \<Rightarrow> (data, s)
      | Some ex \<Rightarrow>
          (let extra_opts = (case extra_options p of None \<Rightarrow> [] | Some opts \<Rightarrow> opts);
               extra_f = flat env ex;
               extra_f1 =
                 (if has_key extra_f ''_transformer''
                  then dict_update (popped extra_f ''_transformer'')
                         (flat env (extract_fields env data
                            (names_of env (get_or extra_f ''_transformer'' (VStr [])))))
                  else extra_f)
           in case resolve_sentinels env extra_f1 (oid_count s) of
                (extra_f2, n) \<Rightarrow>
                  (unflat env (update_with_options env (flat env data) extra_f2 extra_opts),
                   s\<lparr>oid_count := n\<rparr>)))"

text \<open>\<^verbatim>\<open>process\<close>: one incoming record, dispatched by the configured operation.\<close>

definition process ::
  "base \<Rightarrow> ('b, 'o) env \<Rightarrow> dictset \<Rightarrow> ('b, 'o) state \<Rightarrow> (unit, 'b, 'o) res" where
  "process p env data0 s0 =
     (case add_extra p env data0 s0 of
        (data, s) \<Rightarrow>
          (let keys = (if op_params p \<noteq> [] then split_strip env (op_params p) else []) in
           if (op p = ''update'' \<or> op p = ''upsert'' \<or> op p = ''delete'') \<and> keys = [] then
             (Inl (DValueError (''missing op params for `'' @ op p @ ''` operation'')), s)
           else if op p = ''create'' then create p env data s
           else if op p = ''update'' then
             (case objects_to_update p env keys data s of
                (Inl e, s1) \<Rightarrow> (Inl e, s1)
              | (Inr (q, objects), s1) \<Rightarrow>
                  if \<not> coll_truthy objects then (Inr (), log_not_found p env q data s1)
                  else
                    (case update_objects p env q objects data s1 of
                       (Inl e, s2) \<Rightarrow> (Inl e, s2)
                     | (Inr n, s2) \<Rightarrow> (Inr (), s2)))
           else if op p = ''upsert'' then
             (case objects_to_update p env keys data s of
                (Inl e, s1) \<Rightarrow> (Inl e, s1)
              | (Inr (q, objects), s1) \<Rightarrow>
                  if coll_truthy objects then
                    (case update_objects p env q objects data s1 of
                       (Inl e, s2) \<Rightarrow> (Inl e, s2)
                     | (Inr n, s2) \<Rightarrow> (Inr (), s2))
                  else create p env data s1)
           else if op p = ''delete'' then
             (case objects_to_update p env keys data s of
                (Inl e, s1) \<Rightarrow> (Inl e, s1)
              | (Inr (q, objects), s1) \<Rightarrow>
                  if \<not> coll_truthy objects then (Inr (), log_not_found p env q data s1)
                  else
                    (case objects of
                       Count n \<Rightarrow> (Inl TypeError, s1)
                     | Objects objs \<Rightarrow>
                         (case delete_each p env objs s1 of
                            (Inl e, s2) \<Rightarrow> (Inl e, s2)
                          | (Inr u, s2) \<Rightarrow>
                              (Inr (),
                               log_event (Debug_deleted_count (length objs)
                                            (log_data_format p env (Some (strs keys)) None)) s2))))
           else (Inl (DKeyError ''Must provide `op` param. e.g. op=update:key1,key2''), s)))"

fun process_many ::
  "base \<Rightarrow> ('b, 'o) env \<Rightarrow> dictset list \<Rightarrow> ('b, 'o) state \<Rightarrow> (unit, 'b, 'o) res" where
  "process_many p env [] s = (Inr (), s)"
| "process_many p env (data # rest) s =
     (case process p env data s of
        (Inl e, s1) \<Rightarrow> (Inl e, s1)
      | (Inr u, s1) \<Rightarrow> process_many p env rest s1)"

section \<open>Construction: declaring and validating the options\<close>

text \<open>How \<^verbatim>\<open>__init__\<close> declares an option: with no keyword, with \<^verbatim>\<open>default=\<close>, or with
  \<^verbatim>\<open>allow_missing=True\<close>.\<close>

datatype kw = Required | Default val | Allow_missing

text \<open>
  Modelled from the spec: the typed getters \<^verbatim>\<open>asstr\<close>, \<^verbatim>\<open>asbool\<close>, \<^verbatim>\<open>asint\<close> and \<^verbatim>\<open>aslist\<close> of
  prf's \<^verbatim>\<open>dkdict\<close>, which are not part of the repository. An option is declared with a
  caster and either a default or \<^verbatim>\<open>allow_missing\<close>; one declared without a default must not
  be empty (\<^verbatim>\<open>define_op\<close> passes \<^verbatim>\<open>raise_on_empty=True\<close> for it), and one declared with
  neither must be there. The getter stores the cast value under the option's name.
\<close>

definition typed_get ::
  "('b, 'o) env \<Rightarrow> string \<Rightarrow> string \<Rightarrow> kw \<Rightarrow> dictset \<Rightarrow> error + (val \<times> dictset)" where
  "typed_get env caster name k params =
     (case map_of params name of
        None \<Rightarrow>
          (case k of
             Required \<Rightarrow> Inl (ConfigurationError name)
           | Default d \<Rightarrow> Inr (d, setitem params name d)
           | Allow_missing \<Rightarrow> Inr (VNone, params))
      | Some v \<Rightarrow>
          if (case k of Default d \<Rightarrow> False | _ \<Rightarrow> True) \<and> \<not> truthy v
          then Inl (ConfigurationError name)
          else
            (case cast_as env caster v of
               Inl e \<Rightarrow> Inl e
             | Inr v' \<Rightarrow> Inr (v', setitem params name v')))"

text \<open>\<^verbatim>\<open>define_op\<close>: read the option and register its name in the class-wide
  \<^verbatim>\<open>_operations\<close>, of which only the key set is ever read.\<close>

definition define_op ::
  "('b, 'o) env \<Rightarrow> dictset \<Rightarrow> string set \<Rightarrow> string \<Rightarrow> string \<Rightarrow> kw
     \<Rightarrow> error + (val \<times> dictset \<times> string set)" where
  "define_op env params ops caster name k =
     (case typed_get env caster name k params of
        Inl e \<Rightarrow> Inl e
      | Inr (ret_val, params') \<Rightarrow> Inr (ret_val, params', insert name ops))"

definition validate_ops :: "dictset \<Rightarrow> string set \<Rightarrow> error + unit" where
  "validate_ops params ops =
     (let invalid_ops = set (map fst params) - ops in
      if invalid_ops \<noteq> {} then Inl (DKeyError_invalid_operations invalid_ops) else Inr ())"

text \<open>The options \<^verbatim>\<open>__init__\<close> declares with \<^verbatim>\<open>define_op\<close> before \<^verbatim>\<open>ns\<close>, in its order.\<close>

definition declarations :: "(string \<times> string \<times> kw) list" where
  "declarations =
     [(''asstr'', ''name'', Required),
      (''asbool'', ''keep_ids'', Default (VBool False)),
      (''asbool'', ''overwrite'', Default (VBool True)),
      (''asbool'', ''flatten'', Default (VBool False)),
      (''aslist'', ''append_to'', Default (VList [])),
      (''aslist'', ''append_to_set'', Default (VList [])),
      (''aslist'', ''normalize'', Default (VList [])),
      (''aslist'', ''fields'', Allow_missing),
      (''aslist'', ''pop_empty'', Default (VList [])),
      (''asbool'', ''keep_source_logs'', Default (VBool False)),
      (''asbool'', ''dry_run'', Default (VBool False)),
      (''asint'', ''log_size'', Default (VInt 256)),
      (''aslist'', ''log_fields'', Default (VList [])),
      (''asbool'', ''log_pretty'', Default (VBool False)),
      (''asbool'', ''fail_on_error'', Default (VBool True)),
      (''aslist'', ''show_diff'', Allow_missing),
      (''asstr'', ''op'', Required),
      (''aslist'', ''skip_by'', Allow_missing),
      (''asstr'', ''transformer'', Allow_missing),
      (''asstr'', ''source_consolidation_mode'', Allow_missing),
      (''asstr'', ''backend'', Allow_missing)]"

fun define_ops ::
  "('b, 'o) env \<Rightarrow> (string \<times> string \<times> kw) list \<Rightarrow> dictset \<Rightarrow> string set
     \<Rightarrow> error + (dictset \<times> string set)" where
  "define_ops env [] params ops = Inr (params, ops)"
| "define_ops env (d # ds) params ops =
     (case define_op env params ops (fst d) (fst (snd d)) (snd (snd d)) of
        Inl e \<Rightarrow> Inl e
      | Inr (ret_val, params', ops') \<Rightarrow> define_ops env ds params' ops')"

text \<open>\<^verbatim>\<open>__init__\<close> before \<^verbatim>\<open>validate_ops\<close>: the declarations, the three mapping options
  and \<^verbatim>\<open>ns\<close>, whose value is stored back. It returns the mapping and the names
  registered.\<close>

definition declare_options ::
  "('b, 'o) env \<Rightarrow> dictset \<Rightarrow> string set \<Rightarrow> error + (dictset \<times> string set)" where
  "declare_options env raw ops0 =
     (case define_ops env declarations raw ops0 of
        Inl e \<Rightarrow> Inl e
      | Inr (params, ops) \<Rightarrow>
          (let ops1 = insert ''extra_options'' (insert ''extra'' (insert ''query'' ops)) in
           case define_op env params ops1 ''asstr'' ''ns'' Allow_missing of
             Inl e \<Rightarrow> Inl e
           | Inr (ns, params1, ops2) \<Rightarrow> Inr (setitem params1 ''ns'' ns, ops2)))"

text \<open>\<^verbatim>\<open>__init__\<close> up to and with \<^verbatim>\<open>validate_ops\<close>.\<close>

definition declare_and_validate ::
  "('b, 'o) env \<Rightarrow> dictset \<Rightarrow> string set \<Rightarrow> error + (dictset \<times> string set)" where
  "declare_and_validate env raw ops0 =
     (case declare_options env raw ops0 of
        Inl e \<Rightarrow> Inl e
      | Inr (params, ops) \<Rightarrow>
          (case validate_ops params ops of
             Inl e \<Rightarrow> Inl e
           | Inr u \<Rightarrow> Inr (params, ops)))"

text \<open>The names \<^verbatim>\<open>__init__\<close> registers: the declared option set.\<close>

definition declared_names :: "string set" where
  "declared_names =
     set (map (\<lambda>d. fst (snd d)) declarations)
       \<union> {''query'', ''extra'', ''extra_options'', ''ns''}"

text \<open>
  \<^verbatim>\<open>__init__\<close>: the validated mapping with \<^verbatim>\<open>op\<close> split at its colon, the names
  registered, and the warnings for nested append keys. \<^verbatim>\<open>params.op.partition\<close> needs a
  string.
\<close>

definition init ::
  "('b, 'o) env \<Rightarrow> dictset \<Rightarrow> string set \<Rightarrow> error + (dictset \<times> string set \<times> 'o event list)" where
  "init env raw ops0 =
     (case declare_and_validate env raw ops0 of
        Inl e \<Rightarrow> Inl e
      | Inr (params, ops) \<Rightarrow>
          (case get_or params ''op'' VNone of
             VStr opstr \<Rightarrow>
               (case partition_str '':'' opstr of
                  (opname, sep, opargs) \<Rightarrow>
                    (let params1 = setitem (setitem params ''op'' (VStr opname))
                                     ''op_params'' (VStr opargs)
                     in case get_dataset env params1 of
                          Inl e \<Rightarrow> Inl e
                        | Inr u \<Rightarrow>
                            (let at = names_of env (get_or params1 ''append_to'' VNone);
                                 ats = names_of env (get_or params1 ''append_to_set'' VNone)
                             in Inr (params1, ops,
                                     if (ats \<noteq> [] \<or> at \<noteq> [])
                                        \<and> \<not> truthy (get_or params1 ''flatten'' VNone)
                                     then map Warning_nested_append (filter dotted (ats @ at))
                                     else []))))
           | v \<Rightarrow> Inl AttributeError))"

section \<open>A configuration and an adapter to evaluate the processor on\<close>

text \<open>The options at their declared defaults, for the operation \<^verbatim>\<open>update:email\<close>.\<close>

definition default_base :: base where
  "default_base =
     \<lparr>keep_ids = False, overwrite = True, flatten = False, append_to = [], append_to_set = [],
      normalize = [], fieldset = None, pop_empty = [], keep_source_logs = False,
      dry_run = False, log_size = 256, log_fields = [], log_pretty = False, show_diff = None,
      op = ''update'', op_params = ''email'', skip_by = None, transformer = None,
      source_consolidation_mode = None, query = None, extra = None, extra_options = None,
      job_log = [(''job'', VInt 7)]\<rparr>"

text \<open>A query matches a stored record that has the query's fields with the query's
  values; the fields whose names start with an underscore are markers.\<close>

definition matches :: "dictset \<Rightarrow> dictset \<Rightarrow> bool" where
  "matches q d = list_all (\<lambda>kv. take 1 (fst kv) = ''_'' \<or> map_of d (fst kv) = Some (snd kv)) q"

text \<open>
  An adapter that keeps the records in a list, each under a number; an object is the
  number with the record. The collaborators are the simplest ones: no casting, no
  flattening, one key for each name.
\<close>

definition memory_env :: "((nat \<times> dictset) list, nat \<times> dictset) env" where
  "memory_env =
     \<lparr>typecast = (\<lambda>d. d),
      extract_fields = (\<lambda>d ks. if ks = [] then d else filter (\<lambda>kv. fst kv \<in> set ks) d),
      flat = (\<lambda>d. d),
      unflat = (\<lambda>d. d),
      split_strip = (\<lambda>s. [s]),
      get_morpher = (\<lambda>t d. [d]),
      smurfs_normalize = (\<lambda>d ks. VNone),
      consolidate_sources = (\<lambda>a b mode. b),
      str_of = (\<lambda>v. ''<value>''),
      pformat = (\<lambda>v. ''<value>''),
      object_id = (\<lambda>n. replicate (Suc n) (CHR ''i'')),
      today = VStr ''today'',
      get_collection = (\<lambda>q b. if has_key q ''_count''
                                then Count (int (length (filter (\<lambda>ob. matches q (snd ob)) b)))
                                else Objects (filter (\<lambda>ob. matches q (snd ob)) b)),
      klass = (\<lambda>b. (length b, [])),
      klass_name = ''Doc'',
      to_dict = snd,
      persist = (\<lambda>ob d b. Inr (AList.update (fst ob) d b)),
      obj_delete = (\<lambda>ob b. Inr (AList.delete (fst ob) b)),
      cast_as = (\<lambda>caster v. Inr v),
      get_dataset = (\<lambda>params. Inr ())\<rparr>"

definition alice :: dictset where
  "alice = [(''email'', VStr ''a@b.com''), (''name'', VStr ''Alice''), (''age'', VInt 30)]"

definition store :: "((nat \<times> dictset) list, nat \<times> dictset) state" where
  "store = \<lparr>backend = [(0, alice)], calls = [], logged = [], oid_count = 0\<rparr>"









section \<open>What a run leaves behind\<close>

text \<open>The records handed to the adapter's persist primitive, the objects they were
  saved to, and the objects logged as updated, each in order.\<close>

fun saved_data :: "'o call list \<Rightarrow> dictset list" where
  "saved_data [] = []"
| "saved_data (Call_save ob d # cs) = d # saved_data cs"
| "saved_data (c # cs) = saved_data cs"

fun saved_objs :: "'o call list \<Rightarrow> 'o list" where
  "saved_objs [] = []"
| "saved_objs (Call_save ob d # cs) = ob # saved_objs cs"
| "saved_objs (c # cs) = saved_objs cs"


text \<open>The record's \<^verbatim>\<open>logs\<close> is a list whose first element is the given log entry.\<close>

definition logs_head :: "dictset \<Rightarrow> dictset \<Rightarrow> bool" where
  "logs_head d lg =
     (case map_of d ''logs'' of
        Some (VList (x # rest)) \<Rightarrow> x = VDict lg
      | _ \<Rightarrow> False)"

text \<open>The log entry of the current operation: the incoming record's \<^verbatim>\<open>log\<close> (empty when it
  has none) merged with the job log, as \<^verbatim>\<open>extract_log\<close> computes it.\<close>

definition current_log :: "base \<Rightarrow> ('b, 'o) env \<Rightarrow> dictset \<Rightarrow> dictset" where
  "current_log p env data =
     update_with_defaults env (case map_of data ''log'' of Some (VDict l) \<Rightarrow> l | _ \<Rightarrow> [])
       (job_log p)"

section \<open>Delete under a dry run\<close>





section \<open>Create: the identifier and the skip\<close>



text \<open>
  C9. With \<^verbatim>\<open>skip_by\<close> configured, when the lookup over those keys builds a query and the
  adapter's answer to it is true (one match or more), \<^verbatim>\<open>create\<close> returns without an error,
  the store is as it was, and the only primitive invoked is that lookup: no object is
  allocated and nothing is saved.
\<close>

theorem create_skips_existing:
  "skip_by p = Some ks \<Longrightarrow> build_query_params p env data ks = Inr q \<Longrightarrow>
   coll_truthy (get_collection env (setitem q ''_count'' (VInt 1)) (backend s)) \<Longrightarrow>
     fst (create p env data s) = Inr ()
     \<and> backend (snd (create p env data s)) = backend s
     \<and> calls (snd (create p env data s)) = calls s @ [Call_get_collection (setitem q ''_count'' (VInt 1))]"
  by (simp add: create_def Let_def log_event_def record_call_def)

theorem create_skips_existing_witness:
  "skip_by (default_base\<lparr>op := ''create'', skip_by := Some [''email'']\<rparr>) = Some [''email'']
   \<and> build_query_params (default_base\<lparr>op := ''create'', skip_by := Some [''email'']\<rparr>) memory_env
        [(''email'', VStr ''a@b.com''), (''name'', VStr ''Bob'')] [''email'']
       = Inr [(''email'', VStr ''a@b.com''), (''_limit'', VInt (- 1))]
   \<and> get_collection memory_env [(''email'', VStr ''a@b.com''), (''_limit'', VInt (- 1)), (''_count'', VInt 1)]
        (backend store) = Count 1
   \<and> fst (create (default_base\<lparr>op := ''create'', skip_by := Some [''email'']\<rparr>) memory_env
        [(''email'', VStr ''a@b.com''), (''name'', VStr ''Bob'')] store) = Inr ()
   \<and> backend (snd (create (default_base\<lparr>op := ''create'', skip_by := Some [''email'']\<rparr>) memory_env
        [(''email'', VStr ''a@b.com''), (''name'', VStr ''Bob'')] store)) = [(0, alice)]"
proof -
  let ?p = "default_base\<lparr>op := ''create'', skip_by := Some [''email'']\<rparr>"
  let ?d = "[(''email'', VStr ''a@b.com''), (''name'', VStr ''Bob'')]"
  let ?q = "[(''email'', VStr ''a@b.com''), (''_limit'', VInt (- 1))]"
  have a: "skip_by ?p = Some [''email'']" by simp
  have b: "build_query_params ?p memory_env ?d [''email''] = Inr ?q"
    by (simp add: build_query_params_def query_of_keys_def memory_env_def dotted_def
          dict_update_def setitem_def)
  have g: "get_collection memory_env (setitem ?q ''_count'' (VInt 1)) (backend store) = Count 1"
    by (simp add: memory_env_def setitem_def has_key_def store_def matches_def alice_def)
  have c: "coll_truthy (get_collection memory_env (setitem ?q ''_count'' (VInt 1)) (backend store))"
    by (simp add: g)
  from create_skips_existing [OF a b c] a b g show ?thesis
    by (simp add: setitem_def store_def)
qed

section \<open>Failures of the lookup query\<close>




section \<open>The log history of a saved record\<close>

lemma pop_empties_keeps:
  "map_of d k = Some v \<Longrightarrow> \<not> is_empty_value v \<Longrightarrow> map_of (pop_empties ks d) k = Some v"
  unfolding pop_empties_def
proof (induction ks arbitrary: d)
  case Nil
  then show ?case by simp
next
  case (Cons e ks)
  let ?d' = "if has_key d e \<and> is_empty_value (get_or d e VNone) then popped d e else d"
  from Cons.prems have "map_of ?d' k = Some v"
    by (auto simp: popped_def delete_conv' get_or_def)
  from Cons.IH [OF this Cons.prems(2)] show ?case by simp
qed

lemma pre_save_logs:
  "pre_save p env data m = Inr d \<Longrightarrow>
     \<exists>old. map_of d ''logs'' = Some (VList (VDict (meta_log m) # old))
           \<and> (map_of (run_transformer p env data) ''logs'' = None \<and> old = []
              \<or> map_of (run_transformer p env data) ''logs'' = Some (VList old))"
  apply (simp add: pre_save_def Let_def split: option.splits val.splits sum.splits)
   apply (auto simp: setitem_def update_conv' is_empty_value_def intro!: pop_empties_keeps)
  done

lemma pre_save_logs_head: "pre_save p env data m = Inr d \<Longrightarrow> logs_head d (meta_log m)"
  using pre_save_logs [of p env data m d] by (auto simp: logs_head_def)

lemma saved_data_append: "saved_data (xs @ ys) = saved_data xs @ saved_data ys"
  by (induction xs rule: saved_data.induct) simp_all

lemma saved_objs_append: "saved_objs (xs @ ys) = saved_objs xs @ saved_objs ys"
  by (induction xs rule: saved_objs.induct) simp_all


lemma save_calls:
  "calls (snd (save p env obj data m s)) = calls s
   \<or> (\<exists>d. pre_save p env data m = Inr d \<and> data \<noteq> [] \<and> \<not> dry_run p
          \<and> calls (snd (save p env obj data m s)) = calls s @ [Call_save obj d])"
  by (auto simp: save_def log_event_def record_call_def split: sum.splits)

lemma save_new_saves:
  "\<exists>cs. calls (snd (save p env obj data m s)) = calls s @ cs
        \<and> list_all (\<lambda>d. logs_head d (meta_log m)) (saved_data cs)"
proof -
  from save_calls [of p env obj data m s] show ?thesis
  proof
    assume "calls (snd (save p env obj data m s)) = calls s"
    then have "calls (snd (save p env obj data m s)) = calls s @ []
               \<and> list_all (\<lambda>d. logs_head d (meta_log m)) (saved_data [])" by simp
    then show ?thesis by blast
  next
    assume "\<exists>d. pre_save p env data m = Inr d \<and> data \<noteq> [] \<and> \<not> dry_run p
          \<and> calls (snd (save p env obj data m s)) = calls s @ [Call_save obj d]"
    then obtain d where d: "pre_save p env data m = Inr d"
      and c: "calls (snd (save p env obj data m s)) = calls s @ [Call_save obj d]" by blast
    from pre_save_logs_head [OF d] have "list_all (\<lambda>d. logs_head d (meta_log m)) (saved_data [Call_save obj d])"
      by simp
    with c show ?thesis by blast
  qed
qed

lemma update_each_new_saves:
  "\<exists>cs. calls (snd (update_each p env q data m objs s)) = calls s @ cs
        \<and> list_all (\<lambda>d. logs_head d (meta_log m)) (saved_data cs)"
proof (induction objs arbitrary: s)
  case Nil
  have "calls (snd (update_each p env q data m [] s)) = calls s @ []
        \<and> list_all (\<lambda>d. logs_head d (meta_log m)) (saved_data [])" by simp
  then show ?case by blast
next
  case (Cons each rest)
  define s2 where "s2 = log_events (consolidation_warning p m)
       (case show_diff p of None \<Rightarrow> s | Some ks \<Rightarrow> log_events (diff env data (to_dict env each) ks) s)"
  have c2: "calls s2 = calls s"
    by (simp add: s2_def log_events_def split: option.splits)
  obtain r s3 where sv: "save p env each (new_data_for p env m data each) m s2 = (r, s3)"
    by (cases "save p env each (new_data_for p env m data each) m s2")
  from save_new_saves [of p env each "new_data_for p env m data each" m s2] sv c2
  obtain cs where cs: "calls s3 = calls s @ cs"
    "list_all (\<lambda>d. logs_head d (meta_log m)) (saved_data cs)" by auto
  show ?case
  proof (cases r)
    case (Inl e)
    with sv cs have "calls (snd (update_each p env q data m (each # rest) s)) = calls s @ cs"
      by (simp add: s2_def Let_def)
    with cs(2) show ?thesis by blast
  next
    case (Inr x)
    define s4 where "s4 = log_event (Debug_updated each (log_data_format p env (Some (VDict q)) None)) s3"
    have c4: "calls s4 = calls s @ cs" by (simp add: s4_def log_event_def cs)
    from Cons.IH [of s4] obtain cs' where cs': "calls (snd (update_each p env q data m rest s4)) = calls s4 @ cs'"
      "list_all (\<lambda>d. logs_head d (meta_log m)) (saved_data cs')" by blast
    from Inr sv have "update_each p env q data m (each # rest) s = update_each p env q data m rest s4"
      by (simp add: s2_def s4_def Let_def)
    with cs' c4 have "calls (snd (update_each p env q data m (each # rest) s)) = calls s @ (cs @ cs')"
      by simp
    moreover from cs(2) cs'(2) have "list_all (\<lambda>d. logs_head d (meta_log m)) (saved_data (cs @ cs'))"
      by (simp add: saved_data_append)
    ultimately show ?thesis by blast
  qed
qed

lemma extract_meta_log:
  "extract_meta p env data = Inr (m, data2) \<Longrightarrow> meta_log m = current_log p env data"
  by (auto simp: extract_meta_def extract_log_def current_log_def
           split: option.splits val.splits sum.splits)

lemma current_log_cong:
  "map_of data' ''log'' = map_of data ''log'' \<Longrightarrow> current_log p env data' = current_log p env data"
  by (simp add: current_log_def)

lemma current_log_popped_logs: "current_log p env (popped data ''logs'') = current_log p env data"
  by (rule current_log_cong) (simp add: popped_def delete_conv')

lemma current_log_rename_id: "current_log p env (rename_id p data) = current_log p env data"
  by (rule current_log_cong) (simp add: rename_id_def setitem_def popped_def update_conv' delete_conv')

lemma update_objects_new_saves:
  "\<exists>cs. calls (snd (update_objects p env q objects data s)) = calls s @ cs
        \<and> list_all (\<lambda>d. logs_head d (current_log p env data)) (saved_data cs)"
proof (cases objects)
  case (Count n)
  then have "calls (snd (update_objects p env q objects data s)) = calls s @ []
       \<and> list_all (\<lambda>d. logs_head d (current_log p env data)) (saved_data [])"
    by (simp add: update_objects_def)
  then show ?thesis by blast
next
  case (Objects objs)
  let ?data1 = "if \<not> keep_source_logs p then popped data ''logs'' else data"
  let ?s1 = "if length objs > 1
             then log_event (Warning_multiple_updates (length objs)
                               (log_data_format p env (Some (VDict q)) None)) s
             else s"
  have c1: "calls ?s1 = calls s" by (simp add: log_event_def)
  have cl: "current_log p env ?data1 = current_log p env data"
    by (simp add: current_log_popped_logs)
  show ?thesis
  proof (cases "extract_meta p env ?data1")
    case (Inl e)
    with Objects have "update_objects p env q objects data s = (Inl e, ?s1)"
      by (simp add: update_objects_def Let_def)
    with c1 have "calls (snd (update_objects p env q objects data s)) = calls s @ []
       \<and> list_all (\<lambda>d. logs_head d (current_log p env data)) (saved_data [])"
      by simp
    then show ?thesis by blast
  next
    case (Inr md)
    obtain m data2 where md: "md = (m, data2)" by (cases md)
    from extract_meta_log [of p env ?data1 m data2] Inr md cl
    have ml: "meta_log m = current_log p env data" by simp
    from update_each_new_saves [of p env q data2 m objs ?s1] c1 ml
    obtain cs where cs: "calls (snd (update_each p env q data2 m objs ?s1)) = calls s @ cs"
      "list_all (\<lambda>d. logs_head d (current_log p env data)) (saved_data cs)" by auto
    from Objects Inr md
    have "snd (update_objects p env q objects data s) = snd (update_each p env q data2 m objs ?s1)"
      by (simp add: update_objects_def Let_def split: prod.splits sum.splits)
    with cs show ?thesis by auto
  qed
qed

lemma create_object_new_saves:
  "\<exists>cs. calls (snd (create_object p env data s)) = calls s @ cs
        \<and> list_all (\<lambda>d. logs_head d (current_log p env data)) (saved_data cs)"
proof (cases "extract_meta p env (rename_id p data)")
  case (Inl e)
  then have "calls (snd (create_object p env data s)) = calls s @ [Call_klass]
       \<and> list_all (\<lambda>d. logs_head d (current_log p env data)) (saved_data [Call_klass])"
    by (simp add: create_object_def Let_def record_call_def)
  then show ?thesis by blast
next
  case (Inr md)
  obtain m data2 where md: "md = (m, data2)" by (cases md)
  from extract_meta_log [of p env "rename_id p data" m data2] Inr md
  have ml: "meta_log m = current_log p env data" by (simp add: current_log_rename_id)
  let ?s1 = "record_call Call_klass s"
  let ?obj = "klass env (backend s)"
  from save_new_saves [of p env ?obj data2 m ?s1] ml
  obtain cs where cs: "calls (snd (save p env ?obj data2 m ?s1)) = calls s @ (Call_klass # cs)"
    "list_all (\<lambda>d. logs_head d (current_log p env data)) (saved_data cs)"
    by (auto simp: record_call_def)
  from Inr md
  have "calls (snd (create_object p env data s)) = calls (snd (save p env ?obj data2 m ?s1))"
    by (simp add: create_object_def Let_def log_event_def split: prod.splits sum.splits)
  with cs have "calls (snd (create_object p env data s)) = calls s @ (Call_klass # cs)
     \<and> list_all (\<lambda>d. logs_head d (current_log p env data)) (saved_data (Call_klass # cs))"
    by simp
  then show ?thesis by blast
qed

lemma create_new_saves:
  "\<exists>cs. calls (snd (create p env data s)) = calls s @ cs
        \<and> list_all (\<lambda>d. logs_head d (current_log p env data)) (saved_data cs)"
proof (cases "skip_by p")
  case None
  then show ?thesis using create_object_new_saves [of p env data s] by (simp add: create_def)
next
  case (Some ks)
  show ?thesis
  proof (cases "build_query_params p env data ks")
    case (Inl e)
    with Some have "calls (snd (create p env data s)) = calls s @ []
       \<and> list_all (\<lambda>d. logs_head d (current_log p env data)) (saved_data [])"
      by (simp add: create_def)
    then show ?thesis by blast
  next
    case (Inr q)
    let ?q1 = "setitem q ''_count'' (VInt 1)"
    let ?s1 = "record_call (Call_get_collection ?q1) s"
    show ?thesis
    proof (cases "coll_truthy (get_collection env ?q1 (backend s))")
      case True
      with Some Inr have "calls (snd (create p env data s)) = calls s @ [Call_get_collection ?q1]
       \<and> list_all (\<lambda>d. logs_head d (current_log p env data)) (saved_data [Call_get_collection ?q1])"
        by (simp add: create_def Let_def log_event_def record_call_def)
      then show ?thesis by blast
    next
      case False
      with Some Inr have e: "create p env data s = create_object p env data ?s1"
        by (simp add: create_def Let_def)
      from create_object_new_saves [of p env data ?s1]
      obtain cs where cs: "calls (snd (create_object p env data ?s1)) = calls ?s1 @ cs"
        "list_all (\<lambda>d. logs_head d (current_log p env data)) (saved_data cs)" by blast
      from cs e have "calls (snd (create p env data s)) = calls s @ (Call_get_collection ?q1 # cs)
        \<and> list_all (\<lambda>d. logs_head d (current_log p env data)) (saved_data (Call_get_collection ?q1 # cs))"
        by (simp add: record_call_def)
      then show ?thesis by blast
    qed
  qed
qed

text \<open>
  C5. Whatever the configuration (the \<^verbatim>\<open>fields\<close> restriction, a transformer, normalised
  fields, \<^verbatim>\<open>pop_empty\<close>), a record that \<^verbatim>\<open>pre_save\<close> returns has a non-empty \<^verbatim>\<open>logs\<close> list
  whose head is the log entry of the metadata. So every record that \<^verbatim>\<open>update_objects\<close> or
  \<^verbatim>\<open>create\<close> hands to the adapter's persist primitive has, at the head of its \<^verbatim>\<open>logs\<close>,
  the incoming record's \<^verbatim>\<open>log\<close> merged with the job log.
\<close>

theorem saved_logs_head_is_current_log:
  "(pre_save p env data m = Inr d \<longrightarrow> logs_head d (meta_log m))
   \<and> (\<exists>cs. calls (snd (update_objects p env q objects data s)) = calls s @ cs
           \<and> list_all (\<lambda>d. logs_head d (current_log p env data)) (saved_data cs))
   \<and> (\<exists>cs. calls (snd (create p env data s)) = calls s @ cs
           \<and> list_all (\<lambda>d. logs_head d (current_log p env data)) (saved_data cs))"
  using pre_save_logs_head [of p env data m d] update_objects_new_saves [of p env q objects data s]
    create_new_saves [of p env data s]
  by blast

theorem saved_logs_head_is_current_log_witness:
  "pre_save (default_base\<lparr>fieldset := Some [''name'']\<rparr>) memory_env
       [(''email'', VStr ''a@b.com''), (''name'', VStr ''Bob'')]
       \<lparr>meta_log = [(''step'', VInt 2), (''job'', VInt 7)], meta_source = VNone\<rparr>
     = Inr [(''name'', VStr ''Bob''), (''logs'', VList [VDict [(''step'', VInt 2), (''job'', VInt 7)]])]
   \<and> logs_head [(''name'', VStr ''Bob''), (''logs'', VList [VDict [(''step'', VInt 2), (''job'', VInt 7)]])]
        [(''step'', VInt 2), (''job'', VInt 7)]
   \<and> current_log (default_base\<lparr>fieldset := Some [''name'']\<rparr>) memory_env
        [(''email'', VStr ''a@b.com''), (''name'', VStr ''Bob''), (''log'', VDict [(''step'', VInt 2)])]
       = [(''step'', VInt 2), (''job'', VInt 7)]
   \<and> saved_data (calls (snd (update_objects (default_base\<lparr>fieldset := Some [''name'']\<rparr>) memory_env
        [(''email'', VStr ''a@b.com'')] (Objects [(0, alice)])
        [(''email'', VStr ''a@b.com''), (''name'', VStr ''Bob''), (''log'', VDict [(''step'', VInt 2)])]
        store)))
       = [[(''name'', VStr ''Bob''), (''logs'', VList [VDict [(''step'', VInt 2), (''job'', VInt 7)]])]]"
  using saved_logs_head_is_current_log
          [of "default_base\<lparr>fieldset := Some [''name'']\<rparr>" memory_env
              "[(''email'', VStr ''a@b.com''), (''name'', VStr ''Bob'')]"
              "\<lparr>meta_log = [(''step'', VInt 2), (''job'', VInt 7)], meta_source = VNone\<rparr>"
              "[(''name'', VStr ''Bob''), (''logs'', VList [VDict [(''step'', VInt 2), (''job'', VInt 7)]])]"]
  by (simp add: default_base_def memory_env_def store_def alice_def matches_def has_key_def
        get_or_def setitem_def popped_def strs_def nl_def merge_field_def
        update_with_def update_with_defaults_def merged_def new_data_for_def
        consolidated_def consolidation_warning_def log_data_format_def
        extract_log_def extract_meta_def run_transformer_def is_empty_value_def
        pop_empties_def pre_save_def save_def diff_def update_objects_def
        log_event_def log_events_def record_call_def logs_head_def current_log_def
        Let_def)

section \<open>Create keeps the incoming log history\<close>

lemma pre_save_succeeds:
  "map_of (run_transformer p env data) ''logs'' = Some (VList old) \<Longrightarrow>
     \<exists>d. pre_save p env data m = Inr d"
  by (simp add: pre_save_def Let_def)

lemma rename_id_logs: "map_of (rename_id p data) ''logs'' = map_of data ''logs''"
  by (simp add: rename_id_def setitem_def popped_def update_conv' delete_conv')

lemma extract_meta_logs:
  "extract_meta p env data = Inr (m, data2) \<Longrightarrow> map_of data2 ''logs'' = map_of data ''logs''"
  by (auto simp: extract_meta_def extract_log_def popped_def delete_conv'
           split: option.splits val.splits sum.splits)

lemma extract_meta_succeeds:
  "map_of data ''log'' = None \<or> (\<exists>l. map_of data ''log'' = Some (VDict l)) \<Longrightarrow>
     \<exists>m data2. extract_meta p env data = Inr (m, data2)"
  by (auto simp: extract_meta_def extract_log_def)

lemma rename_id_log: "map_of (rename_id p data) ''log'' = map_of data ''log''"
  by (simp add: rename_id_def setitem_def popped_def update_conv' delete_conv')

lemma save_persists:
  "\<not> dry_run p \<Longrightarrow> data \<noteq> [] \<Longrightarrow> pre_save p env data m = Inr d \<Longrightarrow>
     calls (snd (save p env obj data m s)) = calls s @ [Call_save obj d]"
  by (simp add: save_def log_event_def record_call_def split: sum.splits)

lemma create_object_logs:
  assumes tr: "transformer p = None" and lg: "map_of data ''logs'' = Some (VList old)"
  shows "calls (snd (create_object p env data s)) = calls s @ [Call_klass]
         \<or> (\<exists>d. calls (snd (create_object p env data s))
                   = calls s @ [Call_klass, Call_save (klass env (backend s)) d]
                 \<and> map_of d ''logs'' = Some (VList (VDict (current_log p env data) # old)))"
proof (cases "extract_meta p env (rename_id p data)")
  case (Inl e)
  then show ?thesis by (simp add: create_object_def Let_def record_call_def)
next
  case (Inr md)
  obtain m data2 where md: "md = (m, data2)" by (cases md)
  with Inr have em: "extract_meta p env (rename_id p data) = Inr (m, data2)" by simp
  from extract_meta_log [OF em] have ml: "meta_log m = current_log p env data"
    by (simp add: current_log_rename_id)
  from extract_meta_logs [OF em] lg have l2: "map_of data2 ''logs'' = Some (VList old)"
    by (simp add: rename_id_logs)
  from tr have rt: "run_transformer p env data2 = data2" by (simp add: run_transformer_def)
  let ?s1 = "record_call Call_klass s"
  let ?obj = "klass env (backend s)"
  from em have c: "calls (snd (create_object p env data s)) = calls (snd (save p env ?obj data2 m ?s1))"
    by (simp add: create_object_def Let_def log_event_def split: prod.splits sum.splits)
  from save_calls [of p env ?obj data2 m ?s1] show ?thesis
  proof
    assume "calls (snd (save p env ?obj data2 m ?s1)) = calls ?s1"
    with c show ?thesis by (simp add: record_call_def)
  next
    assume "\<exists>d. pre_save p env data2 m = Inr d \<and> data2 \<noteq> [] \<and> \<not> dry_run p
          \<and> calls (snd (save p env ?obj data2 m ?s1)) = calls ?s1 @ [Call_save ?obj d]"
    then obtain d where d: "pre_save p env data2 m = Inr d"
      and cs: "calls (snd (save p env ?obj data2 m ?s1)) = calls ?s1 @ [Call_save ?obj d]"
      by blast
    from pre_save_logs [OF d] rt l2 ml
    have "map_of d ''logs'' = Some (VList (VDict (current_log p env data) # old))" by auto
    with c cs show ?thesis by (simp add: record_call_def)
  qed
qed

lemma create_object_saves:
  assumes tr: "transformer p = None" and lg: "map_of data ''logs'' = Some (VList old)"
    and dr: "\<not> dry_run p"
    and l: "map_of data ''log'' = None \<or> (\<exists>l. map_of data ''log'' = Some (VDict l))"
  shows "\<exists>d. calls (snd (create_object p env data s))
               = calls s @ [Call_klass, Call_save (klass env (backend s)) d]"
proof -
  from l have "map_of (rename_id p data) ''log'' = None
       \<or> (\<exists>l. map_of (rename_id p data) ''log'' = Some (VDict l))"
    by (simp add: rename_id_log)
  from extract_meta_succeeds [OF this]
  obtain m data2 where em: "extract_meta p env (rename_id p data) = Inr (m, data2)" by blast
  from extract_meta_logs [OF em] lg have l2: "map_of data2 ''logs'' = Some (VList old)"
    by (simp add: rename_id_logs)
  then have ne: "data2 \<noteq> []" by auto
  from tr have rt: "run_transformer p env data2 = data2" by (simp add: run_transformer_def)
  from pre_save_succeeds [of p env data2 old m] l2 rt
  obtain d where d: "pre_save p env data2 m = Inr d" by auto
  let ?s1 = "record_call Call_klass s"
  from save_persists [OF dr ne d, of "klass env (backend s)" ?s1]
  have "calls (snd (save p env (klass env (backend s)) data2 m ?s1))
          = calls s @ [Call_klass, Call_save (klass env (backend s)) d]"
    by (simp add: record_call_def)
  moreover from em
  have "calls (snd (create_object p env data s)) = calls (snd (save p env (klass env (backend s)) data2 m ?s1))"
    by (simp add: create_object_def Let_def log_event_def split: prod.splits sum.splits)
  ultimately show ?thesis by simp
qed

text \<open>
  C6, as the code has it. \<^verbatim>\<open>create\<close> calls \<^verbatim>\<open>save\<close> directly; the step that drops the
  incoming \<^verbatim>\<open>logs\<close> is in \<^verbatim>\<open>update_objects\<close> only. So with no transformer configured and
  incoming data that carries a list \<^verbatim>\<open>logs\<close>, whatever \<^verbatim>\<open>keep_source_logs\<close> and \<^verbatim>\<open>skip_by\<close>
  are, every record a create saves has as its \<^verbatim>\<open>logs\<close> the current log entry followed by
  the incoming entries. And the create does save one such record, to the object it has
  allocated, when it is no dry run, the incoming \<^verbatim>\<open>log\<close> is absent or a mapping, and the
  record is not skipped (no \<^verbatim>\<open>skip_by\<close>, or a \<^verbatim>\<open>skip_by\<close> lookup that builds its query and
  finds no match).
\<close>

theorem create_keeps_incoming_logs:
  assumes tr: "transformer p = None" and lg: "map_of data ''logs'' = Some (VList old)"
  shows "(\<exists>cs. calls (snd (create p env data s)) = calls s @ cs
            \<and> list_all (\<lambda>d. map_of d ''logs'' = Some (VList (VDict (current_log p env data) # old)))
                 (saved_data cs))
       \<and> (\<not> dry_run p
          \<and> (map_of data ''log'' = None \<or> (\<exists>l. map_of data ''log'' = Some (VDict l)))
          \<and> (skip_by p = None
             \<or> (\<exists>ks q. skip_by p = Some ks \<and> build_query_params p env data ks = Inr q
                  \<and> \<not> coll_truthy (get_collection env (setitem q ''_count'' (VInt 1)) (backend s))))
          \<longrightarrow> (\<exists>d. saved_data (calls (snd (create p env data s))) = saved_data (calls s) @ [d]
                   \<and> saved_objs (calls (snd (create p env data s)))
                       = saved_objs (calls s) @ [klass env (backend s)]
                   \<and> map_of d ''logs'' = Some (VList (VDict (current_log p env data) # old))))"
proof -
  let ?P = "\<lambda>d. map_of d ''logs'' = Some (VList (VDict (current_log p env data) # old))"
  have obj: "\<And>t. \<exists>cs. calls (snd (create_object p env data t)) = calls t @ cs
                 \<and> list_all ?P (saved_data cs)"
  proof -
    fix t
    from create_object_logs [OF tr lg, of env t] show "\<exists>cs. calls (snd (create_object p env data t)) = calls t @ cs
                 \<and> list_all ?P (saved_data cs)"
    proof
      assume "calls (snd (create_object p env data t)) = calls t @ [Call_klass]"
      then have "calls (snd (create_object p env data t)) = calls t @ [Call_klass]
           \<and> list_all ?P (saved_data [Call_klass])" by simp
      then show ?thesis by blast
    next
      assume "\<exists>d. calls (snd (create_object p env data t))
                   = calls t @ [Call_klass, Call_save (klass env (backend t)) d] \<and> ?P d"
      then obtain d where "calls (snd (create_object p env data t))
                   = calls t @ [Call_klass, Call_save (klass env (backend t)) d]" and "?P d" by blast
      then have "calls (snd (create_object p env data t))
                   = calls t @ [Call_klass, Call_save (klass env (backend t)) d]
           \<and> list_all ?P (saved_data [Call_klass, Call_save (klass env (backend t)) d])" by simp
      then show ?thesis by blast
    qed
  qed
  have part1: "\<exists>cs. calls (snd (create p env data s)) = calls s @ cs \<and> list_all ?P (saved_data cs)"
  proof (cases "skip_by p")
    case None
    then show ?thesis using obj [of s] by (simp add: create_def)
  next
    case (Some ks)
    show ?thesis
    proof (cases "build_query_params p env data ks")
      case (Inl e)
      with Some have "calls (snd (create p env data s)) = calls s @ [] \<and> list_all ?P (saved_data [])"
        by (simp add: create_def)
      then show ?thesis by blast
    next
      case (Inr q)
      let ?q1 = "setitem q ''_count'' (VInt 1)"
      let ?s1 = "record_call (Call_get_collection ?q1) s"
      show ?thesis
      proof (cases "coll_truthy (get_collection env ?q1 (backend s))")
        case True
        with Some Inr have "calls (snd (create p env data s)) = calls s @ [Call_get_collection ?q1]
           \<and> list_all ?P (saved_data [Call_get_collection ?q1])"
          by (simp add: create_def Let_def log_event_def record_call_def)
        then show ?thesis by blast
      next
        case False
        with Some Inr have e: "create p env data s = create_object p env data ?s1"
          by (simp add: create_def Let_def)
        from obj [of ?s1] obtain cs where cs: "calls (snd (create_object p env data ?s1)) = calls ?s1 @ cs"
          "list_all ?P (saved_data cs)" by blast
        from cs e have "calls (snd (create p env data s)) = calls s @ (Call_get_collection ?q1 # cs)
          \<and> list_all ?P (saved_data (Call_get_collection ?q1 # cs))"
          by (simp add: record_call_def)
        then show ?thesis by blast
      qed
    qed
  qed
  have part2: "\<exists>d. saved_data (calls (snd (create p env data s))) = saved_data (calls s) @ [d]
                   \<and> saved_objs (calls (snd (create p env data s)))
                       = saved_objs (calls s) @ [klass env (backend s)]
                   \<and> ?P d"
    if dr: "\<not> dry_run p"
      and l: "map_of data ''log'' = None \<or> (\<exists>l. map_of data ''log'' = Some (VDict l))"
      and sk: "skip_by p = None
             \<or> (\<exists>ks q. skip_by p = Some ks \<and> build_query_params p env data ks = Inr q
                  \<and> \<not> coll_truthy (get_collection env (setitem q ''_count'' (VInt 1)) (backend s)))"
  proof -
    have core: "\<exists>d. saved_data (calls (snd (create p env data s))) = saved_data (calls s) @ [d]
                   \<and> saved_objs (calls (snd (create p env data s)))
                       = saved_objs (calls s) @ [klass env (backend s)]
                   \<and> ?P d"
      if t: "create p env data s = create_object p env data t" "calls t = calls s @ pre"
        "saved_data pre = []" "saved_objs pre = []" "backend t = backend s" for t pre
    proof -
      from create_object_saves [OF tr lg dr l, of env t]
      obtain d where d: "calls (snd (create_object p env data t))
               = calls t @ [Call_klass, Call_save (klass env (backend t)) d]" by blast
      from create_object_logs [OF tr lg, of env t] d
      have pd: "?P d" by auto
      from d t have "saved_data (calls (snd (create p env data s))) = saved_data (calls s) @ [d]
        \<and> saved_objs (calls (snd (create p env data s))) = saved_objs (calls s) @ [klass env (backend s)]"
        by (simp add: saved_data_append saved_objs_append)
      with pd show ?thesis by blast
    qed
    from sk show ?thesis
    proof
      assume "skip_by p = None"
      then have "create p env data s = create_object p env data s" by (simp add: create_def)
      from core [OF this, of "[]"] show ?thesis by simp
    next
      assume "\<exists>ks q. skip_by p = Some ks \<and> build_query_params p env data ks = Inr q
                  \<and> \<not> coll_truthy (get_collection env (setitem q ''_count'' (VInt 1)) (backend s))"
      then obtain ks q where a: "skip_by p = Some ks" "build_query_params p env data ks = Inr q"
        "\<not> coll_truthy (get_collection env (setitem q ''_count'' (VInt 1)) (backend s))" by blast
      let ?q1 = "setitem q ''_count'' (VInt 1)"
      let ?s1 = "record_call (Call_get_collection ?q1) s"
      from a have "create p env data s = create_object p env data ?s1"
        by (simp add: create_def Let_def)
      from core [OF this, of "[Call_get_collection ?q1]"] show ?thesis
        by (simp add: record_call_def)
    qed
  qed
  from part1 part2 show ?thesis by blast
qed

theorem create_keeps_incoming_logs_witness:
  "transformer (default_base\<lparr>op := ''create'', skip_by := Some [''sku'']\<rparr>) = None
   \<and> map_of [(''sku'', VStr ''X1''), (''logs'', VList [VDict [(''prior'', VInt 1)]])] ''logs''
       = Some (VList [VDict [(''prior'', VInt 1)]])
   \<and> \<not> dry_run (default_base\<lparr>op := ''create'', skip_by := Some [''sku'']\<rparr>)
   \<and> \<not> keep_source_logs (default_base\<lparr>op := ''create'', skip_by := Some [''sku'']\<rparr>)
   \<and> map_of [(''sku'', VStr ''X1''), (''logs'', VList [VDict [(''prior'', VInt 1)]])] ''log'' = None
   \<and> build_query_params (default_base\<lparr>op := ''create'', skip_by := Some [''sku'']\<rparr>) memory_env
        [(''sku'', VStr ''X1''), (''logs'', VList [VDict [(''prior'', VInt 1)]])] [''sku'']
       = Inr [(''sku'', VStr ''X1''), (''_limit'', VInt (- 1))]
   \<and> \<not> coll_truthy (get_collection memory_env
          [(''sku'', VStr ''X1''), (''_limit'', VInt (- 1)), (''_count'', VInt 1)] (backend store))
   \<and> saved_data (calls (snd (create (default_base\<lparr>op := ''create'', skip_by := Some [''sku'']\<rparr>)
        memory_env [(''sku'', VStr ''X1''), (''logs'', VList [VDict [(''prior'', VInt 1)]])] store)))
       = [[(''sku'', VStr ''X1''),
           (''logs'', VList [VDict [(''job'', VInt 7)], VDict [(''prior'', VInt 1)]])]]
   \<and> saved_objs (calls (snd (create (default_base\<lparr>op := ''create'', skip_by := Some [''sku'']\<rparr>)
        memory_env [(''sku'', VStr ''X1''), (''logs'', VList [VDict [(''prior'', VInt 1)]])] store)))
       = [(1, [])]"
proof -
  let ?p = "default_base\<lparr>op := ''create'', skip_by := Some [''sku'']\<rparr>"
  let ?d = "[(''sku'', VStr ''X1''), (''logs'', VList [VDict [(''prior'', VInt 1)]])]"
  let ?q = "[(''sku'', VStr ''X1''), (''_limit'', VInt (- 1))]"
  have tr: "transformer ?p = None" by (simp add: default_base_def)
  have lg: "map_of ?d ''logs'' = Some (VList [VDict [(''prior'', VInt 1)]])" by simp
  have dr: "\<not> dry_run ?p" and ks: "\<not> keep_source_logs ?p" by (simp_all add: default_base_def)
  have l: "map_of ?d ''log'' = None" by simp
  have sk: "skip_by ?p = Some [''sku'']" by simp
  have b: "build_query_params ?p memory_env ?d [''sku''] = Inr ?q"
    by (simp add: build_query_params_def query_of_keys_def memory_env_def dotted_def
          dict_update_def setitem_def)
  have g: "\<not> coll_truthy (get_collection memory_env (setitem ?q ''_count'' (VInt 1)) (backend store))"
    by (simp add: memory_env_def setitem_def has_key_def store_def matches_def alice_def)
  have cl: "current_log ?p memory_env ?d = [(''job'', VInt 7)]"
    by (simp add: current_log_def update_with_defaults_def update_with_def merge_field_def
          default_base_def)
  have kl: "klass memory_env (backend store) = (1, [])"
    by (simp add: memory_env_def store_def)
  have sd: "saved_data (calls store) = []" and so: "saved_objs (calls store) = []"
    by (simp_all add: store_def)
  from create_keeps_incoming_logs [OF tr lg, of memory_env store] dr l sk b g
  obtain d where d: "saved_data (calls (snd (create ?p memory_env ?d store))) = saved_data (calls store) @ [d]"
    "saved_objs (calls (snd (create ?p memory_env ?d store))) = saved_objs (calls store) @ [klass memory_env (backend store)]"
    "map_of d ''logs'' = Some (VList (VDict (current_log ?p memory_env ?d) # [VDict [(''prior'', VInt 1)]]))"
    by blast
  have ev: "saved_data (calls (snd (create ?p memory_env ?d store)))
       = [[(''sku'', VStr ''X1''),
           (''logs'', VList [VDict [(''job'', VInt 7)], VDict [(''prior'', VInt 1)]])]]"
    by (simp add: default_base_def memory_env_def store_def alice_def matches_def create_def
          create_object_def rename_id_def has_key_def extract_meta_def extract_log_def
          update_with_defaults_def update_with_def merge_field_def get_or_def save_def
          pre_save_def run_transformer_def setitem_def pop_empties_def record_call_def
          log_event_def build_query_params_def query_of_keys_def dotted_def dict_update_def
          Let_def)
  from d kl so have o: "saved_objs (calls (snd (create ?p memory_env ?d store))) = [(1, [])]"
    by simp
  from tr lg dr ks l b g ev o show ?thesis by (simp add: setitem_def)
qed

theorem create_drops_incoming_logs_counterexample:
  "\<not> keep_source_logs (default_base\<lparr>op := ''create''\<rparr>)
   \<and> saved_data (calls (snd (create (default_base\<lparr>op := ''create''\<rparr>) memory_env
        [(''sku'', VStr ''X1''), (''logs'', VList [VDict [(''prior'', VInt 1)]])] store)))
     = [[(''sku'', VStr ''X1''),
         (''logs'', VList [VDict [(''job'', VInt 7)], VDict [(''prior'', VInt 1)]])]]"
  by (simp add: default_base_def memory_env_def store_def create_def create_object_def
        rename_id_def has_key_def extract_meta_def extract_log_def update_with_defaults_def
        update_with_def merge_field_def get_or_def save_def pre_save_def run_transformer_def
        setitem_def pop_empties_def record_call_def log_event_def Let_def)

section \<open>Saving empty data\<close>



section \<open>Update: no match, one match, many matches\<close>
















section \<open>The overwrite policy of the merge\<close>








section \<open>Validation of the options\<close>

lemma keys_setitem: "set (map fst (setitem d k v)) = insert k (set (map fst d))"
  by (simp add: setitem_def dom_update)

lemma typed_get_keys:
  "typed_get env c name k params = Inr (v, params') \<Longrightarrow>
     set (map fst params) \<subseteq> set (map fst params')
     \<and> set (map fst params') \<subseteq> insert name (set (map fst params))"
  by (auto simp: typed_get_def keys_setitem simp del: set_map split: option.splits kw.splits sum.splits if_splits)

lemma define_ops_keys:
  "define_ops env ds params ops = Inr (params', ops') \<Longrightarrow>
     ops' = ops \<union> set (map (\<lambda>d. fst (snd d)) ds)
     \<and> set (map fst params) \<subseteq> set (map fst params')
     \<and> set (map fst params') \<subseteq> set (map fst params) \<union> set (map (\<lambda>d. fst (snd d)) ds)"
proof (induction ds arbitrary: params ops)
  case Nil
  then show ?case by simp
next
  case (Cons d ds)
  from Cons.prems obtain v p1 where
    tg: "typed_get env (fst d) (fst (snd d)) (snd (snd d)) params = Inr (v, p1)"
    and rest: "define_ops env ds p1 (insert (fst (snd d)) ops) = Inr (params', ops')"
    by (auto simp: define_op_def split: sum.splits)
  define K0 where "K0 = set (map fst params)"
  define K1 where "K1 = set (map fst p1)"
  define K2 where "K2 = set (map fst params')"
  define N where "N = set (map (\<lambda>d. fst (snd d)) ds)"
  from typed_get_keys [OF tg] have a: "K0 \<subseteq> K1" "K1 \<subseteq> insert (fst (snd d)) K0"
    unfolding K0_def K1_def by blast+
  from Cons.IH [OF rest] have b: "ops' = insert (fst (snd d)) ops \<union> N" "K1 \<subseteq> K2" "K2 \<subseteq> K1 \<union> N"
    unfolding K1_def K2_def N_def by blast+
  from a b have "ops' = ops \<union> insert (fst (snd d)) N \<and> K0 \<subseteq> K2
      \<and> K2 \<subseteq> K0 \<union> insert (fst (snd d)) N"
    by blast
  then show ?case by (simp add: K0_def K2_def N_def)
qed

lemma declare_options_keys:
  assumes "declare_options env raw ops0 = Inr (params, ops)"
  shows "ops = ops0 \<union> declared_names"
    and "set (map fst raw) - ops = set (map fst params) - ops"
proof -
  from assms obtain p0 o0 v p1 where
    d: "define_ops env declarations raw ops0 = Inr (p0, o0)"
    and tg: "typed_get env ''asstr'' ''ns'' Allow_missing p0 = Inr (v, p1)"
    and pr: "params = setitem p1 ''ns'' v"
    and o: "ops = insert ''ns'' (insert ''extra_options'' (insert ''extra'' (insert ''query'' o0)))"
    by (auto simp: declare_options_def define_op_def Let_def split: sum.splits)
  define K0 where "K0 = set (map fst raw)"
  define K1 where "K1 = set (map fst p0)"
  define K2 where "K2 = set (map fst p1)"
  define K3 where "K3 = set (map fst params)"
  define N where "N = set (map (\<lambda>d. fst (snd d)) declarations)"
  from define_ops_keys [OF d] have a: "o0 = ops0 \<union> N" "K0 \<subseteq> K1" "K1 \<subseteq> K0 \<union> N"
    unfolding K0_def K1_def N_def by blast+
  from typed_get_keys [OF tg] have b: "K1 \<subseteq> K2" "K2 \<subseteq> insert ''ns'' K1"
    unfolding K1_def K2_def by blast+
  from pr have c: "K3 = insert ''ns'' K2"
    unfolding K3_def K2_def by (simp only: keys_setitem)
  have dn: "declared_names = N \<union> {''query'', ''extra'', ''extra_options'', ''ns''}"
    by (simp add: declared_names_def N_def)
  from a o dn show "ops = ops0 \<union> declared_names" by blast
  from a b c o have "K0 - ops = K3 - ops" by blast
  then show "set (map fst raw) - ops = set (map fst params) - ops"
    by (simp only: K0_def K3_def)
qed

lemma validate_ops_iff:
  "validate_ops params ops =
     (if set (map fst params) \<subseteq> ops then Inr ()
      else Inl (DKeyError_invalid_operations (set (map fst params) - ops)))"
  by (auto simp: validate_ops_def Let_def)

lemma declare_and_validate_unknown_key:
  assumes "\<not> set (map fst raw) \<subseteq> ops0 \<union> declared_names"
  shows "isl (declare_and_validate env raw ops0)"
proof (cases "declare_options env raw ops0")
  case (Inl e)
  then show ?thesis by (simp add: declare_and_validate_def)
next
  case (Inr po)
  obtain params ops where po: "po = (params, ops)" by (cases po)
  from declare_options_keys [of env raw ops0 params ops] Inr po
  have o: "ops = ops0 \<union> declared_names" and k: "set (map fst raw) - ops = set (map fst params) - ops"
    by simp_all
  from assms o k have "\<not> set (map fst params) \<subseteq> ops" by blast
  with Inr po show ?thesis by (simp add: declare_and_validate_def validate_ops_iff)
qed

lemma init_declaration_error:
  "declare_options env raw ops0 = Inl e \<Longrightarrow>
     declare_and_validate env raw ops0 = Inl e \<and> init env raw ops0 = Inl e"
  by (simp add: declare_and_validate_def init_def)

text \<open>
  C3, as the code has it. \<^verbatim>\<open>validate_ops\<close> passes when every key of the mapping is a
  registered name and otherwise raises the error that carries exactly the keys that are
  not. It runs after the declarations. A raw mapping with a key outside the declared set
  (and outside the names registered before) always makes the construction fail: with the
  error of the declarations when they raise one, and with the error that lists exactly the
  offending keys when they all succeed. When every key is declared and the declarations
  succeed, the validation passes.
\<close>

theorem unknown_option_fails_construction:
  "validate_ops params ops =
     (if set (map fst params) \<subseteq> ops then Inr ()
      else Inl (DKeyError_invalid_operations (set (map fst params) - ops)))
   \<and> (\<not> set (map fst raw) \<subseteq> ops0 \<union> declared_names \<longrightarrow>
        isl (declare_and_validate env raw ops0) \<and> isl (init env raw ops0))
   \<and> (declare_options env raw ops0 = Inl e \<longrightarrow>
        declare_and_validate env raw ops0 = Inl e \<and> init env raw ops0 = Inl e)
   \<and> (declare_options env raw ops0 = Inr (params', ops') \<longrightarrow>
        ops' = ops0 \<union> declared_names
        \<and> (\<not> set (map fst raw) \<subseteq> ops0 \<union> declared_names \<longrightarrow>
             declare_and_validate env raw ops0
               = Inl (DKeyError_invalid_operations (set (map fst raw) - (ops0 \<union> declared_names)))
             \<and> init env raw ops0
               = Inl (DKeyError_invalid_operations (set (map fst raw) - (ops0 \<union> declared_names))))
        \<and> (set (map fst raw) \<subseteq> ops0 \<union> declared_names \<longrightarrow>
             validate_ops params' ops' = Inr ()
             \<and> declare_and_validate env raw ops0 = Inr (params', ops')))"
proof (intro conjI impI)
  show "validate_ops params ops =
     (if set (map fst params) \<subseteq> ops then Inr ()
      else Inl (DKeyError_invalid_operations (set (map fst params) - ops)))"
    by (rule validate_ops_iff)
next
  assume u: "\<not> set (map fst raw) \<subseteq> ops0 \<union> declared_names"
  from declare_and_validate_unknown_key [OF u, of env]
  show "isl (declare_and_validate env raw ops0)" .
  then show "isl (init env raw ops0)"
    by (cases "declare_and_validate env raw ops0") (simp_all add: init_def)
next
  assume "declare_options env raw ops0 = Inl e"
  from init_declaration_error [OF this]
  show "declare_and_validate env raw ops0 = Inl e" and "init env raw ops0 = Inl e"
    by simp_all
next
  assume d: "declare_options env raw ops0 = Inr (params', ops')"
  from declare_options_keys [OF d]
  have o: "ops' = ops0 \<union> declared_names"
    and k: "set (map fst raw) - ops' = set (map fst params') - ops'" by simp_all
  show "ops' = ops0 \<union> declared_names" by (rule o)
  {
    assume u: "\<not> set (map fst raw) \<subseteq> ops0 \<union> declared_names"
    with o k have n: "\<not> set (map fst params') \<subseteq> ops'" by blast
    with d k o show "declare_and_validate env raw ops0
               = Inl (DKeyError_invalid_operations (set (map fst raw) - (ops0 \<union> declared_names)))"
      by (simp add: declare_and_validate_def validate_ops_iff)
    then show "init env raw ops0
               = Inl (DKeyError_invalid_operations (set (map fst raw) - (ops0 \<union> declared_names)))"
      by (simp add: init_def)
  }
  {
    assume v: "set (map fst raw) \<subseteq> ops0 \<union> declared_names"
    with o k have n: "set (map fst params') \<subseteq> ops'" by blast
    then show "validate_ops params' ops' = Inr ()" by (simp add: validate_ops_iff)
    with d show "declare_and_validate env raw ops0 = Inr (params', ops')"
      by (simp add: declare_and_validate_def)
  }
qed

theorem unknown_option_fails_construction_witness:
  "\<not> set (map fst [(''name'', VStr ''people''), (''op'', VStr ''update:email''), (''bogus'', VStr ''1'')])
        \<subseteq> {} \<union> declared_names
   \<and> init memory_env [(''name'', VStr ''people''), (''op'', VStr ''update:email''), (''bogus'', VStr ''1'')] {}
       = Inl (DKeyError_invalid_operations {''bogus''})
   \<and> declare_options memory_env [(''name'', VStr ''''), (''op'', VStr ''create''), (''bogus'', VStr ''1'')] {}
       = Inl (ConfigurationError ''name'')
   \<and> init memory_env [(''name'', VStr ''''), (''op'', VStr ''create''), (''bogus'', VStr ''1'')] {}
       = Inl (ConfigurationError ''name'')
   \<and> set (map fst [(''name'', VStr ''people''), (''op'', VStr ''update:email'')]) \<subseteq> {} \<union> declared_names
   \<and> isl (declare_and_validate memory_env [(''name'', VStr ''people''), (''op'', VStr ''update:email'')] {})
       = False"
proof -
  let ?bad = "[(''name'', VStr ''people''), (''op'', VStr ''update:email''), (''bogus'', VStr ''1'')]"
  let ?empty = "[(''name'', VStr ''''), (''op'', VStr ''create''), (''bogus'', VStr ''1'')]"
  let ?good = "[(''name'', VStr ''people''), (''op'', VStr ''update:email'')]"
  have u: "\<not> set (map fst ?bad) \<subseteq> {} \<union> declared_names"
    by (simp add: declared_names_def declarations_def)
  have v: "set (map fst ?good) \<subseteq> {} \<union> declared_names"
    by (simp add: declared_names_def declarations_def)
  obtain pb ob where db: "declare_options memory_env ?bad {} = Inr (pb, ob)"
    by (simp add: declarations_def declare_options_def define_op_def typed_get_def memory_env_def
          setitem_def)
  obtain pg og where dg: "declare_options memory_env ?good {} = Inr (pg, og)"
    by (simp add: declarations_def declare_options_def define_op_def typed_get_def memory_env_def
          setitem_def)
  have de: "declare_options memory_env ?empty {} = Inl (ConfigurationError ''name'')"
    by (simp add: declarations_def declare_options_def define_op_def typed_get_def memory_env_def)
  have diff: "set (map fst ?bad) - ({} \<union> declared_names) = {''bogus''}"
    by (auto simp: declared_names_def declarations_def)
  from unknown_option_fails_construction [of _ _ ?bad "{}" memory_env _ pb ob] db u diff
  have b: "init memory_env ?bad {} = Inl (DKeyError_invalid_operations {''bogus''})" by simp
  from unknown_option_fails_construction [of _ _ ?empty "{}" memory_env "ConfigurationError ''name''"] de
  have e: "init memory_env ?empty {} = Inl (ConfigurationError ''name'')" by simp
  from unknown_option_fails_construction [of _ _ ?good "{}" memory_env _ pg og] dg v
  have g: "declare_and_validate memory_env ?good {} = Inr (pg, og)" by simp
  from u v b e de g show ?thesis by simp
qed

theorem unknown_option_error_counterexample:
  "''bogus'' \<notin> declared_names
   \<and> init memory_env [(''name'', VStr ''''), (''op'', VStr ''create''), (''bogus'', VStr ''1'')] {}
       = Inl (ConfigurationError ''name'')"
  by (simp add: declared_names_def declarations_def init_def declare_and_validate_def
        declare_options_def define_op_def typed_get_def memory_env_def)

end
